theory Spec2Isabelle
  imports Complex_Main "HOL-Library.Word"
begin

section \<open>JavaScript values\<close>

text \<open>
  The rotation function of \<^verbatim>\<open>src/lambda/external-id-rotation-lambda/index.ts\<close> runs on
  JavaScript values. A JavaScript string is a sequence of 16-bit code units and
  \<^verbatim>\<open>length\<close> counts code units, so a string is a list of 16-bit words.
  Identifiers that the code only passes on (secret ids, request tokens, stage
  labels) are plain strings.
\<close>

type_synonym js_string = "16 word list"

definition js :: "string \<Rightarrow> js_string" where
  "js s = map (\<lambda>c. of_nat (of_char c)) s"

text \<open>
  Numbers are kept only as far as truthiness needs them: \<open>NaN\<close>, the two infinities
  and the finite values (\<open>+0\<close> and \<open>-0\<close> are both \<open>Finite 0\<close>).
\<close>

datatype js_number = NaN | Infinity bool | Finite rat

text \<open>
  The values \<^verbatim>\<open>unknown\<close> ranges over. Functions and symbols are left out: like
  objects they are truthy and their \<^verbatim>\<open>typeof\<close> is not \<^verbatim>\<open>"string"\<close>.
\<close>

datatype js_value =
    JUndefined
  | JNull
  | JBoolean bool
  | JNumber js_number
  | JBigInt int
  | JString js_string
  | JArray "js_value list"
  | JObject "(js_string \<times> js_value) list"

text \<open>\<^verbatim>\<open>!v\<close> is true exactly for the falsy values.\<close>

fun falsy :: "js_value \<Rightarrow> bool" where
  "falsy JUndefined = True"
| "falsy JNull = True"
| "falsy (JBoolean b) = (\<not> b)"
| "falsy (JNumber n) = (n = NaN \<or> n = Finite 0)"
| "falsy (JBigInt i) = (i = 0)"
| "falsy (JString s) = (s = [])"
| "falsy (JArray xs) = False"
| "falsy (JObject kvs) = False"

section \<open>Errors\<close>

text \<open>
  What a phase can throw: \<^verbatim>\<open>new Error(message)\<close> of the code itself, an exception of
  \<^verbatim>\<open>client.send\<close>, the \<^verbatim>\<open>SyntaxError\<close> of \<^verbatim>\<open>JSON.parse\<close>, and the
  \<^verbatim>\<open>TypeError\<close> of a property read on \<^verbatim>\<open>null\<close> or \<^verbatim>\<open>undefined\<close>.
\<close>

datatype store_error = NotFound | AlreadyExists | StoreUnavailable | InvalidRequest

datatype rotation_error =
    Error string
  | StoreError store_error
  | SyntaxError
  | TypeError

text \<open>
  The specification's reason codes name the five messages of \<^verbatim>\<open>validateExternalId\<close>.
\<close>

datatype reason = Missing | WrongType | TooShort | TooLong | InvalidCharacters

fun message :: "reason \<Rightarrow> string" where
  "message Missing = ''External ID not found in secret''"
| "message WrongType = ''External ID must be a string''"
| "message TooShort = ''External ID must be at least 8 characters long''"
| "message TooLong = ''External ID must be less than 1224 characters long''"
| "message InvalidCharacters = ''External ID must contain only alphanumeric characters''"

definition ValidationError :: "reason \<Rightarrow> rotation_error" where
  "ValidationError r = Error (message r)"

section \<open>Value validator\<close>

text \<open>A code unit in one of the ranges \<^verbatim>\<open>a-z\<close>, \<^verbatim>\<open>A-Z\<close>, \<^verbatim>\<open>0-9\<close>.\<close>

definition alnum :: "16 word \<Rightarrow> bool" where
  "alnum c = ((97 \<le> c \<and> c \<le> 122) \<or> (65 \<le> c \<and> c \<le> 90) \<or> (48 \<le> c \<and> c \<le> 57))"

text \<open>
  \<^verbatim>\<open>/^[a-zA-Z0-9]+$/.test(s)\<close>: without the \<^verbatim>\<open>m\<close> flag \<^verbatim>\<open>^\<close> and \<^verbatim>\<open>$\<close> match only at
  the two ends of the input, so the whole string is one or more code units of the
  class.
\<close>

definition regex_test :: "js_string \<Rightarrow> bool" where
  "regex_test s = (s \<noteq> [] \<and> list_all alnum s)"

text \<open>
  \<^verbatim>\<open>validateExternalId\<close> (lines 196-217): five checks in the order of the source, each
  throwing its own message; \<open>Inr ()\<close> is the normal return.
\<close>

definition validateExternalId :: "js_value \<Rightarrow> rotation_error + unit" where
  "validateExternalId externalId =
     (if falsy externalId then Inl (Error ''External ID not found in secret'')
      else case externalId of
        JString s \<Rightarrow>
          if length s < 8 then Inl (Error ''External ID must be at least 8 characters long'')
          else if length s > 1224 then Inl (Error ''External ID must be less than 1224 characters long'')
          else if \<not> regex_test s then Inl (Error ''External ID must contain only alphanumeric characters'')
          else Inr ()
      | _ \<Rightarrow> Inl (Error ''External ID must be a string''))"

section \<open>Value generator\<close>

text \<open>
  \<^verbatim>\<open>generateSecureExternalId\<close> (lines 222-236). The buffer that
  \<^verbatim>\<open>randomBytes(length)\<close> returns is the parameter \<open>randomValues\<close>. Reading a buffer
  past its end gives \<^verbatim>\<open>undefined\<close>, \<^verbatim>\<open>undefined % 62\<close> is \<^verbatim>\<open>NaN\<close>, and
  \<^verbatim>\<open>charAt(NaN)\<close> is \<^verbatim>\<open>charAt(0)\<close>.
\<close>

definition characters :: js_string where
  "characters = js ''ABCDEFGHIJKLMNOPQRSTUVWXYZabcdefghijklmnopqrstuvwxyz0123456789''"

definition charAt :: "js_string \<Rightarrow> nat \<Rightarrow> js_string" where
  "charAt s i = (if i < length s then [s ! i] else [])"

definition position :: "8 word list \<Rightarrow> nat \<Rightarrow> nat" where
  "position randomValues i =
     (if i < length randomValues then unat (randomValues ! i) mod length characters else 0)"

function generate_loop :: "8 word list \<Rightarrow> nat \<Rightarrow> js_string \<Rightarrow> js_string" where
  "generate_loop randomValues i result =
     (if i < 32
      then generate_loop randomValues (Suc i) (result @ charAt characters (position randomValues i))
      else result)"
  by pat_completeness auto
termination
  by (relation "measure (\<lambda>(randomValues, i, result). 32 - i)") auto

declare generate_loop.simps [simp del]

definition generateSecureExternalId :: "8 word list \<Rightarrow> js_string" where
  "generateSecureExternalId randomValues = generate_loop randomValues 0 []"

text \<open>The character that the loop body appends for the byte \<open>b\<close>.\<close>

definition symbol_of_byte :: "8 word \<Rightarrow> js_string" where
  "symbol_of_byte b = charAt characters (position [b] 0)"

section \<open>The store client\<close>

text \<open>
  The three commands the code builds, with the fields it sets:
  \<^verbatim>\<open>PutSecretValueCommand {SecretId, ClientRequestToken, SecretString, VersionStages}\<close>,
  \<^verbatim>\<open>GetSecretValueCommand {SecretId, VersionId, VersionStage}\<close> and
  \<^verbatim>\<open>UpdateSecretVersionStageCommand {SecretId, VersionStage, MoveToVersionId,
  RemoveFromVersionId}\<close>, where an optional field that is left out or \<^verbatim>\<open>undefined\<close>
  is \<open>None\<close>.
\<close>

datatype command =
    PutSecretValueCommand string string js_string "string list"
  | GetSecretValueCommand string string string
  | UpdateSecretVersionStageCommand string string "string option" "string option"

record response =
  SecretString :: "js_string option"

text \<open>
  \<^verbatim>\<open>client.send(command)\<close> against a store in state \<open>'st\<close>: it throws (\<open>Inl\<close>), and
  the store is as it was, or it answers and leaves the store in a new state.
\<close>

type_synonym 'st client = "command \<Rightarrow> 'st \<Rightarrow> store_error + response \<times> 'st"

section \<open>Rotation orchestrator\<close>

text \<open>
  Every phase takes the client and the state of the store, and returns its outcome
  (\<open>Inl\<close> what it throws, \<open>Inr ()\<close> a normal return) with the state the store is left
  in. \<^verbatim>\<open>JSON.stringify\<close> and \<^verbatim>\<open>JSON.parse\<close> are parameters; \<open>None\<close> from
  \<open>JSON_parse\<close> is its \<^verbatim>\<open>SyntaxError\<close>.
\<close>

text \<open>\<^verbatim>\<open>createSecret\<close> (lines 92-114).\<close>

definition createSecret ::
  "'st client \<Rightarrow> (js_value \<Rightarrow> js_string) \<Rightarrow> 8 word list \<Rightarrow> string \<Rightarrow> string \<Rightarrow> 'st
     \<Rightarrow> (rotation_error + unit) \<times> 'st" where
  "createSecret send JSON_stringify randomValues secretArn token st =
     (let newExternalId = generateSecureExternalId randomValues;
          newSecretValue = JSON_stringify (JObject [(js ''externalId'', JString newExternalId)])
      in case send (PutSecretValueCommand secretArn token newSecretValue [''AWSPENDING'']) st of
           Inl e \<Rightarrow> (Inl (StoreError e), st)
         | Inr (r, st') \<Rightarrow> (Inr (), st'))"

text \<open>\<^verbatim>\<open>setSecret\<close> (lines 119-126).\<close>

definition setSecret :: "'st client \<Rightarrow> string \<Rightarrow> string \<Rightarrow> 'st \<Rightarrow> (rotation_error + unit) \<times> 'st" where
  "setSecret send secretArn token st = (Inr (), st)"

text \<open>
  \<^verbatim>\<open>secretData.externalId\<close>: a \<^verbatim>\<open>TypeError\<close> on \<^verbatim>\<open>null\<close> and \<^verbatim>\<open>undefined\<close>, the
  field of an object, and \<^verbatim>\<open>undefined\<close> where there is no such property.
\<close>

fun externalId_of :: "js_value \<Rightarrow> rotation_error + js_value" where
  "externalId_of JUndefined = Inl TypeError"
| "externalId_of JNull = Inl TypeError"
| "externalId_of (JObject kvs) =
     Inr (case map_of kvs (js ''externalId'') of None \<Rightarrow> JUndefined | Some v \<Rightarrow> v)"
| "externalId_of v = Inr JUndefined"

text \<open>\<^verbatim>\<open>testSecret\<close> (lines 131-156).\<close>

definition testSecret ::
  "'st client \<Rightarrow> (js_string \<Rightarrow> js_value option) \<Rightarrow> string \<Rightarrow> string \<Rightarrow> 'st
     \<Rightarrow> (rotation_error + unit) \<times> 'st" where
  "testSecret send JSON_parse secretArn token st =
     (case send (GetSecretValueCommand secretArn token ''AWSPENDING'') st of
        Inl e \<Rightarrow> (Inl (StoreError e), st)
      | Inr (r, st') \<Rightarrow>
          (case SecretString r of
             None \<Rightarrow> (Inl (Error ''No secret string found in response''), st')
           | Some str \<Rightarrow>
               if str = [] then (Inl (Error ''No secret string found in response''), st')
               else (case JSON_parse str of
                       None \<Rightarrow> (Inl SyntaxError, st')
                     | Some secretData \<Rightarrow>
                         (case externalId_of secretData of
                            Inl e \<Rightarrow> (Inl e, st')
                          | Inr externalId \<Rightarrow> (validateExternalId externalId, st')))))"

text \<open>
  \<^verbatim>\<open>finishSecret\<close> (lines 161-191). \<^verbatim>\<open>if (previousVersionId)\<close> is false for
  \<^verbatim>\<open>undefined\<close> and for the empty string.
\<close>

definition finishSecret ::
  "'st client \<Rightarrow> string \<Rightarrow> string \<Rightarrow> string option \<Rightarrow> 'st \<Rightarrow> (rotation_error + unit) \<times> 'st" where
  "finishSecret send secretArn token previousVersionId st =
     (case send (UpdateSecretVersionStageCommand secretArn ''AWSCURRENT'' (Some token)
                   previousVersionId) st of
        Inl e \<Rightarrow> (Inl (StoreError e), st)
      | Inr (r, st1) \<Rightarrow>
          if previousVersionId \<noteq> None \<and> previousVersionId \<noteq> Some []
          then (case send (UpdateSecretVersionStageCommand secretArn ''AWSPENDING'' None
                             previousVersionId) st1 of
                  Inl e \<Rightarrow> (Inl (StoreError e), st1)
                | Inr (r', st2) \<Rightarrow> (Inr (), st2))
          else (Inr (), st1))"

text \<open>
  \<^verbatim>\<open>handler\<close> (lines 43-87): the dispatch on \<^verbatim>\<open>event.Step\<close>. The \<^verbatim>\<open>catch\<close> logs and
  throws the same error again. \<open>randomValues\<close> is what \<^verbatim>\<open>randomBytes\<close> returns if this
  invocation calls it.
\<close>

record RotationEvent =
  SecretId :: string
  ClientRequestToken :: string
  Step :: string
  PreviousVersionId :: "string option"

record RotationResponse =
  statusCode :: nat

definition handler ::
  "'st client \<Rightarrow> (js_value \<Rightarrow> js_string) \<Rightarrow> (js_string \<Rightarrow> js_value option) \<Rightarrow> 8 word list
     \<Rightarrow> RotationEvent \<Rightarrow> 'st \<Rightarrow> (rotation_error + RotationResponse) \<times> 'st" where
  "handler send JSON_stringify JSON_parse randomValues event st =
     (let secretArn = SecretId event; token = ClientRequestToken event; step = Step event
      in case (if step = ''createSecret''
               then createSecret send JSON_stringify randomValues secretArn token st
               else if step = ''setSecret'' then setSecret send secretArn token st
               else if step = ''testSecret'' then testSecret send JSON_parse secretArn token st
               else if step = ''finishSecret''
               then finishSecret send secretArn token (PreviousVersionId event) st
               else (Inl (Error (''Invalid step: '' @ step)), st)) of
           (Inl error, st') \<Rightarrow> (Inl error, st')
         | (Inr u, st') \<Rightarrow> (Inr \<lparr>statusCode = 200\<rparr>, st'))"

text \<open>
  A sequence of invocations by the trigger: the store carries over from one
  invocation to the next, whatever the outcome of each.
\<close>

fun invocations ::
  "'st client \<Rightarrow> (js_value \<Rightarrow> js_string) \<Rightarrow> (js_string \<Rightarrow> js_value option)
     \<Rightarrow> (RotationEvent \<times> 8 word list) list \<Rightarrow> 'st \<Rightarrow> 'st" where
  "invocations send JSON_stringify JSON_parse [] st = st"
| "invocations send JSON_stringify JSON_parse ((event, randomValues) # rest) st =
     invocations send JSON_stringify JSON_parse rest
       (snd (handler send JSON_stringify JSON_parse randomValues event st))"

section \<open>The secret store\<close>

text \<open>
  Modelled from the spec: the secret store behind \<^verbatim>\<open>client.send\<close> is an external
  service and no file of the repository implements it. The data model is that of
  section 3 of the specification (a secret holds versions, and each stage label is
  attached to at most one version); a version is identified by the request token that
  created it, as the code does when it passes \<^verbatim>\<open>token\<close> as \<^verbatim>\<open>VersionId\<close> and as
  \<^verbatim>\<open>MoveToVersionId\<close>.
\<close>

record secret =
  versions :: "string \<rightharpoonup> js_string"
  CURRENT :: "string option"
  PENDING :: "string option"
  PREVIOUS :: "string option"

type_synonym store = "string \<rightharpoonup> secret"

text \<open>
  Modelled from the spec: the payload of the version tagged \<open>PENDING\<close> whose creation
  token is \<open>requestToken\<close>, and the payload that \<open>CURRENT\<close> resolves to
  (\<open>GetCurrent\<close> of section 8).
\<close>

definition pending_version :: "store \<Rightarrow> string \<Rightarrow> string \<Rightarrow> js_string option" where
  "pending_version st secretId requestToken =
     (case st secretId of
        None \<Rightarrow> None
      | Some sec \<Rightarrow> if PENDING sec = Some requestToken then versions sec requestToken else None)"

definition GetCurrent :: "store \<Rightarrow> string \<Rightarrow> js_string option" where
  "GetCurrent st secretId =
     (case st secretId of
        None \<Rightarrow> None
      | Some sec \<Rightarrow> (case CURRENT sec of None \<Rightarrow> None | Some v \<Rightarrow> versions sec v))"

text \<open>
  Modelled from the spec: \<open>GetPending\<close> of section 4.3, the version tagged \<open>PENDING\<close>
  for this token, or \<open>NotFound\<close>.
\<close>

definition GetPending :: "string \<Rightarrow> string \<Rightarrow> store \<Rightarrow> store_error + response \<times> store" where
  "GetPending secretId requestToken st =
     (case pending_version st secretId requestToken of
        None \<Rightarrow> Inl NotFound
      | Some payload \<Rightarrow> Inr (\<lparr>SecretString = Some payload\<rparr>, st))"

text \<open>
  Modelled from the spec: \<open>PutPending\<close> of section 4.3. A new version is created with
  stage \<open>PENDING\<close>; if a version exists for the token the call is a success that
  changes nothing.
\<close>

definition PutPending ::
  "string \<Rightarrow> string \<Rightarrow> js_string \<Rightarrow> store \<Rightarrow> store_error + response \<times> store" where
  "PutPending secretId requestToken payload st =
     (case st secretId of
        None \<Rightarrow> Inl NotFound
      | Some sec \<Rightarrow>
          (case versions sec requestToken of
             Some existing \<Rightarrow> Inr (\<lparr>SecretString = None\<rparr>, st)
           | None \<Rightarrow>
               Inr (\<lparr>SecretString = None\<rparr>,
                    st(secretId \<mapsto> sec\<lparr>versions := (versions sec)(requestToken \<mapsto> payload),
                                        PENDING := Some requestToken\<rparr>))))"

text \<open>
  Modelled from the spec: \<open>PromotePending\<close> of section 4.3, one atomic reassignment.
  \<open>CURRENT\<close> moves onto the version of the token, that version no longer carries
  \<open>PENDING\<close>, and a \<open>PENDING\<close> label still on the previous version is removed. A
  token with no version is \<open>NotFound\<close> (the edge-case policy of section 4.4).
\<close>

definition PromotePending ::
  "string \<Rightarrow> string \<Rightarrow> string option \<Rightarrow> store \<Rightarrow> store_error + response \<times> store" where
  "PromotePending secretId requestToken previousVersionId st =
     (case st secretId of
        None \<Rightarrow> Inl NotFound
      | Some sec \<Rightarrow>
          (case versions sec requestToken of
             None \<Rightarrow> Inl NotFound
           | Some payload \<Rightarrow>
               Inr (\<lparr>SecretString = None\<rparr>,
                    st(secretId \<mapsto> sec\<lparr>CURRENT := Some requestToken,
                                        PENDING :=
                                          (if PENDING sec = Some requestToken then None
                                           else if previousVersionId \<noteq> None
                                                   \<and> PENDING sec = previousVersionId then None
                                           else PENDING sec)\<rparr>))))"

text \<open>
  Modelled from the spec: the second call of \<^verbatim>\<open>finishSecret\<close>, which asks only for the
  last part of \<open>PromotePending\<close>: remove any \<open>PENDING\<close> label still attached to the
  previous version.
\<close>

definition ClearPending :: "string \<Rightarrow> string \<Rightarrow> store \<Rightarrow> store_error + response \<times> store" where
  "ClearPending secretId versionId st =
     (case st secretId of
        None \<Rightarrow> Inl NotFound
      | Some sec \<Rightarrow>
          Inr (\<lparr>SecretString = None\<rparr>,
               st(secretId \<mapsto> sec\<lparr>PENDING := (if PENDING sec = Some versionId then None
                                                else PENDING sec)\<rparr>)))"

text \<open>
  Modelled from the spec: the client over this store. Each command of the code is one
  operation of the contract; a command the contract does not cover is refused.
\<close>

fun store_send :: "store client" where
  "store_send (PutSecretValueCommand secretId token str stages) st =
     (if stages = [''AWSPENDING''] then PutPending secretId token str st else Inl InvalidRequest)"
| "store_send (GetSecretValueCommand secretId versionId stage) st =
     (if stage = ''AWSPENDING'' then GetPending secretId versionId st else Inl InvalidRequest)"
| "store_send (UpdateSecretVersionStageCommand secretId stage moveTo removeFrom) st =
     (if stage = ''AWSCURRENT''
      then (case moveTo of
              Some token \<Rightarrow> PromotePending secretId token removeFrom st
            | None \<Rightarrow> Inl InvalidRequest)
      else if stage = ''AWSPENDING'' \<and> moveTo = None
      then (case removeFrom of
              Some versionId \<Rightarrow> ClearPending secretId versionId st
            | None \<Rightarrow> Inl InvalidRequest)
      else Inl InvalidRequest)"

text \<open>
  Modelled from the spec: a store that takes the other result of
  \<open>PutPending -> success | AlreadyExists\<close> and reports a token that has a version.
\<close>

fun reporting_send :: "store client" where
  "reporting_send (PutSecretValueCommand secretId token str stages) st =
     (case st secretId of
        None \<Rightarrow> Inl NotFound
      | Some sec \<Rightarrow>
          (case versions sec token of
             Some existing \<Rightarrow> Inl AlreadyExists
           | None \<Rightarrow> store_send (PutSecretValueCommand secretId token str stages) st))"
| "reporting_send c st = store_send c st"

text \<open>
  Modelled from the spec: \<open>StoreUnavailable\<close> of section 7. The client answers \<open>n\<close>
  more calls and throws on every call after them.
\<close>

definition outage_after :: "'st client \<Rightarrow> (nat \<times> 'st) client" where
  "outage_after send c = (\<lambda>(n, st).
     case n of
       0 \<Rightarrow> Inl StoreUnavailable
     | Suc m \<Rightarrow> (case send c st of Inl e \<Rightarrow> Inl e | Inr (r, st') \<Rightarrow> Inr (r, (m, st'))))"

text \<open>
  A client that keeps, beside the store, every state the store has been in: what a
  reader can observe between two calls of a phase.
\<close>

definition traced :: "'st client \<Rightarrow> ('st \<times> 'st list) client" where
  "traced send c = (\<lambda>(st, history).
     case send c st of Inl e \<Rightarrow> Inl e | Inr (r, st') \<Rightarrow> Inr (r, (st', st # history)))"

text \<open>A reader of \<open>CURRENT\<close> finds a version.\<close>

definition has_current :: "string \<Rightarrow> store \<Rightarrow> bool" where
  "has_current secretId st = (GetCurrent st secretId \<noteq> None)"

section \<open>Flat documents\<close>

text \<open>
  An instance of the two JSON parameters for concrete runs, on the persisted shape of
  section 6: \<^verbatim>\<open>{"externalId":"..."}\<close>, where the string has no quote, no backslash and
  no control character, so that it needs no escape. \<open>parse_flat\<close> reads these
  documents and takes every other text as malformed.
\<close>

definition flat_prefix :: js_string where
  "flat_prefix = [123, 34] @ js ''externalId'' @ [34, 58, 34]"

definition flat_suffix :: js_string where
  "flat_suffix = [34, 125]"

definition plain :: "16 word \<Rightarrow> bool" where
  "plain c = (32 \<le> c \<and> c \<noteq> 34 \<and> c \<noteq> 92)"

definition stringify_flat :: "js_value \<Rightarrow> js_string" where
  "stringify_flat v =
     (case externalId_of v of
        Inr (JString s) \<Rightarrow> flat_prefix @ s @ flat_suffix
      | _ \<Rightarrow> js ''{}'')"

definition parse_flat :: "js_string \<Rightarrow> js_value option" where
  "parse_flat str =
     (let n = length str; s = take (n - 17) (drop 15 str)
      in if 17 \<le> n \<and> take 15 str = flat_prefix \<and> drop (n - 2) str = flat_suffix
            \<and> list_all plain s
         then Some (JObject [(js ''externalId'', JString s)])
         else None)"

section \<open>The validator's rules as the specification words them\<close>

text \<open>
  Section 4.2: \<open>Missing\<close> is a value that is absent or empty, \<open>WrongType\<close> one that is
  not a string, \<open>TooShort\<close> and \<open>TooLong\<close> bound the length, \<open>InvalidCharacters\<close>
  is a character outside the class. \<open>violated\<close> lists the rules a value breaks, in
  the order of the specification, and \<open>spec_verdict\<close> reports the first of them.
\<close>

fun violates :: "reason \<Rightarrow> js_value \<Rightarrow> bool" where
  "violates Missing v = (v = JUndefined \<or> v = JNull \<or> v = JString [])"
| "violates WrongType v = (case v of JString s \<Rightarrow> False | _ \<Rightarrow> True)"
| "violates TooShort v = (case v of JString s \<Rightarrow> length s < 8 | _ \<Rightarrow> False)"
| "violates TooLong v = (case v of JString s \<Rightarrow> length s > 1224 | _ \<Rightarrow> False)"
| "violates InvalidCharacters v = (case v of JString s \<Rightarrow> \<not> list_all alnum s | _ \<Rightarrow> False)"

definition rule_order :: "reason list" where
  "rule_order = [Missing, WrongType, TooShort, TooLong, InvalidCharacters]"

definition violated :: "js_value \<Rightarrow> reason list" where
  "violated v = filter (\<lambda>r. violates r v) rule_order"

definition spec_verdict :: "js_value \<Rightarrow> rotation_error + unit" where
  "spec_verdict v = (case violated v of [] \<Rightarrow> Inr () | r # rs \<Rightarrow> Inl (ValidationError r))"

section \<open>A concrete secret\<close>

text \<open>
  The scenario of section 8 of the specification: the secret \<open>s1\<close> whose version
  \<open>v0\<close> is \<open>CURRENT\<close> (\<open>store0\<close>), and the same secret once \<^verbatim>\<open>createSecret\<close> has run
  for the token \<open>t1\<close> with the 32 bytes \<open>7\<close> as entropy (\<open>store1\<close>), and once
  \<^verbatim>\<open>finishSecret\<close> has promoted that version (\<open>store2\<close>). \<open>rotation\<close> is the four
  invocations of one rotation attempt.
\<close>

definition payload0 :: js_string where
  "payload0 = stringify_flat (JObject [(js ''externalId'', JString (js ''AbCd1234''))])"

definition candidate1 :: js_string where
  "candidate1 = generateSecureExternalId (replicate 32 7)"

definition payload1 :: js_string where
  "payload1 = stringify_flat (JObject [(js ''externalId'', JString candidate1)])"

definition secret0 :: secret where
  "secret0 = \<lparr>versions = [''v0'' \<mapsto> payload0], CURRENT = Some ''v0'',
               PENDING = None, PREVIOUS = None\<rparr>"

definition store0 :: store where
  "store0 = [''s1'' \<mapsto> secret0]"

definition store1 :: store where
  "store1 = [''s1'' \<mapsto> \<lparr>versions = [''v0'' \<mapsto> payload0, ''t1'' \<mapsto> payload1],
                         CURRENT = Some ''v0'', PENDING = Some ''t1'', PREVIOUS = None\<rparr>]"

definition store2 :: store where
  "store2 = [''s1'' \<mapsto> \<lparr>versions = [''v0'' \<mapsto> payload0, ''t1'' \<mapsto> payload1],
                         CURRENT = Some ''t1'', PENDING = None, PREVIOUS = None\<rparr>]"

definition rotation :: "(RotationEvent \<times> 8 word list) list" where
  "rotation = map (\<lambda>step. (\<lparr>SecretId = ''s1'', ClientRequestToken = ''t1'', Step = step,
                              PreviousVersionId = Some ''v0''\<rparr>, replicate 32 7))
                [''createSecret'', ''setSecret'', ''testSecret'', ''finishSecret'']"

text \<open>
  The same secret with a \<open>PENDING\<close> version for \<open>t1\<close> whose stored document holds
  the value \<^verbatim>\<open>bad-value!\<close> of the boundary table of section 8 (\<open>store_bad\<close>).
\<close>

definition payload_bad :: js_string where
  "payload_bad = stringify_flat (JObject [(js ''externalId'', JString (js ''bad-value!''))])"

definition store_bad :: store where
  "store_bad = [''s1'' \<mapsto> \<lparr>versions = [''v0'' \<mapsto> payload0, ''t1'' \<mapsto> payload_bad],
                            CURRENT = Some ''v0'', PENDING = Some ''t1'', PREVIOUS = None\<rparr>]"

section \<open>Properties of the validator\<close>

lemma message_inj: "message r = message r' \<longleftrightarrow> r = r'"
  by (cases r; cases r'; simp)

lemma ValidationError_inj: "ValidationError r = ValidationError r' \<longleftrightarrow> r = r'"
  by (simp add: ValidationError_def message_inj)

lemma validate_string:
  "validateExternalId (JString s) =
     (if s = [] then Inl (ValidationError Missing)
      else if length s < 8 then Inl (ValidationError TooShort)
      else if length s > 1224 then Inl (ValidationError TooLong)
      else if \<not> list_all alnum s then Inl (ValidationError InvalidCharacters)
      else Inr ())"
  by (simp add: validateExternalId_def ValidationError_def regex_test_def)

lemma validate_other:
  "\<forall>s. v \<noteq> JString s \<Longrightarrow>
   validateExternalId v =
     (if falsy v then Inl (ValidationError Missing) else Inl (ValidationError WrongType))"
  by (cases v) (simp_all add: validateExternalId_def ValidationError_def)

lemma validate_spec_verdict:
  "validateExternalId v = (if falsy v then Inl (ValidationError Missing) else spec_verdict v)"
  by (cases v)
    (auto simp: spec_verdict_def violated_def rule_order_def regex_test_def
      validateExternalId_def ValidationError_def)

text \<open>
  C4, as the claim states it, fails: the number \<open>0\<close> is neither absent nor empty and
  is not a string, so the rules of the specification report \<open>WrongType\<close>, while
  \<^verbatim>\<open>!externalId\<close> holds for it and the code throws the message of \<open>Missing\<close>.
\<close>

theorem validateExternalId_zero_counterexample:
  "spec_verdict (JNumber (Finite 0)) = Inl (ValidationError WrongType) \<and>
   validateExternalId (JNumber (Finite 0)) = Inl (ValidationError Missing)"
  by (simp add: spec_verdict_def violated_def rule_order_def validateExternalId_def
      ValidationError_def)

text \<open>
  C4, amended: validation succeeds exactly on the strings of 8 to 1224 code units that
  are all ASCII letters or digits. It fails with \<open>Missing\<close> exactly on the falsy values
  (absent, the empty string, and also \<open>false\<close>, \<open>0\<close> and \<open>NaN\<close>), with \<open>WrongType\<close>
  exactly on the truthy values that are not strings, with \<open>TooShort\<close> exactly on the
  non-empty strings shorter than 8, with \<open>TooLong\<close> exactly on the strings longer than
  1224, and with \<open>InvalidCharacters\<close> exactly on the strings of 8 to 1224 code units
  with a code unit outside the class. On every value that is not falsy the outcome is
  the first rule of the specification that the value breaks.
\<close>

theorem validateExternalId_verdicts:
  "(validateExternalId v = Inr () \<longleftrightarrow>
      (\<exists>s. v = JString s \<and> 8 \<le> length s \<and> length s \<le> 1224 \<and> list_all alnum s)) \<and>
   (validateExternalId v = Inl (ValidationError Missing) \<longleftrightarrow> falsy v) \<and>
   (validateExternalId v = Inl (ValidationError WrongType) \<longleftrightarrow>
      (\<not> falsy v \<and> (\<forall>s. v \<noteq> JString s))) \<and>
   (validateExternalId v = Inl (ValidationError TooShort) \<longleftrightarrow>
      (\<exists>s. v = JString s \<and> 0 < length s \<and> length s < 8)) \<and>
   (validateExternalId v = Inl (ValidationError TooLong) \<longleftrightarrow>
      (\<exists>s. v = JString s \<and> 1224 < length s)) \<and>
   (validateExternalId v = Inl (ValidationError InvalidCharacters) \<longleftrightarrow>
      (\<exists>s. v = JString s \<and> 8 \<le> length s \<and> length s \<le> 1224 \<and> \<not> list_all alnum s)) \<and>
   validateExternalId v = (if falsy v then Inl (ValidationError Missing) else spec_verdict v)"
proof (cases "\<exists>s. v = JString s")
  case True
  then obtain s where v: "v = JString s" by blast
  have "validateExternalId v = (if falsy v then Inl (ValidationError Missing) else spec_verdict v)"
    by (rule validate_spec_verdict)
  moreover have
    "(validateExternalId (JString s) = Inr () \<longleftrightarrow>
        (8 \<le> length s \<and> length s \<le> 1224 \<and> list_all alnum s)) \<and>
     (validateExternalId (JString s) = Inl (ValidationError Missing) \<longleftrightarrow> s = []) \<and>
     validateExternalId (JString s) \<noteq> Inl (ValidationError WrongType) \<and>
     (validateExternalId (JString s) = Inl (ValidationError TooShort) \<longleftrightarrow>
        (0 < length s \<and> length s < 8)) \<and>
     (validateExternalId (JString s) = Inl (ValidationError TooLong) \<longleftrightarrow> 1224 < length s) \<and>
     (validateExternalId (JString s) = Inl (ValidationError InvalidCharacters) \<longleftrightarrow>
        (8 \<le> length s \<and> length s \<le> 1224 \<and> \<not> list_all alnum s))"
    unfolding validate_string by (auto simp: ValidationError_inj)
  ultimately show ?thesis unfolding v by simp
next
  case False
  then have "\<forall>s. v \<noteq> JString s" by simp
  from validate_other [OF this] False validate_spec_verdict [of v] show ?thesis
    by (auto simp: ValidationError_inj)
qed

text \<open>
  C10: a value that breaks more than one rule of the specification fails with the first
  of them in the order \<open>Missing\<close>, \<open>WrongType\<close>, \<open>TooShort\<close>, \<open>TooLong\<close>,
  \<open>InvalidCharacters\<close>.
\<close>

theorem validateExternalId_precedence:
  assumes "2 \<le> length (violated v)"
  shows "validateExternalId v = Inl (ValidationError (hd (violated v)))"
proof (cases "\<exists>s. v = JString s")
  case True
  then obtain s where v: "v = JString s" by blast
  show ?thesis using assms
    unfolding v validate_string by (auto simp: violated_def rule_order_def split: if_splits)
next
  case False
  then have ns: "\<forall>s. v \<noteq> JString s" by simp
  show ?thesis using assms False
    unfolding validate_other [OF ns] by (cases v) (auto simp: violated_def rule_order_def)
qed

text \<open>
  The two examples of C10: a string of 3 characters with \<open>!\<close> in it fails as
  \<open>TooShort\<close>, and the empty string fails as \<open>Missing\<close>.
\<close>

theorem validateExternalId_precedence_witness:
  "violated (JString (js ''ab!'')) = [TooShort, InvalidCharacters] \<and>
   validateExternalId (JString (js ''ab!'')) = Inl (ValidationError TooShort) \<and>
   violated (JString []) = [Missing, TooShort] \<and>
   validateExternalId (JString []) = Inl (ValidationError Missing)"
proof -
  have a: "violated (JString (js ''ab!'')) = [TooShort, InvalidCharacters]"
    by (simp add: violated_def rule_order_def js_def alnum_def)
  have b: "violated (JString []) = [Missing, TooShort]"
    by (simp add: violated_def rule_order_def)
  from a b validateExternalId_precedence [of "JString (js ''ab!'')"]
    validateExternalId_precedence [of "JString []"]
  show ?thesis by simp
qed

section \<open>Properties of the generator\<close>

lemma length_characters: "length characters = 62"
  by (simp add: characters_def js_def)

lemma alnum_characters: "list_all alnum characters"
  by (simp add: characters_def js_def alnum_def)

lemma distinct_characters: "distinct characters"
  by (simp add: characters_def js_def)

lemma position_less: "position randomValues i < length characters"
  by (simp add: position_def length_characters)

lemma charAt_position:
  "charAt characters (position randomValues i) = [characters ! position randomValues i]"
  by (simp add: charAt_def position_less)

text \<open>The loop from \<open>i\<close> on appends one character for each index up to 31.\<close>

lemma generate_loop_eq:
  "i \<le> 32 \<Longrightarrow> generate_loop randomValues i result =
     result @ map (\<lambda>j. characters ! position randomValues j) [i..<32]"
proof (induction randomValues i result rule: generate_loop.induct)
  case (1 randomValues i result)
  show ?case
  proof (cases "i < 32")
    case True
    then have "generate_loop randomValues i result =
        generate_loop randomValues (Suc i) (result @ charAt characters (position randomValues i))"
      by (subst generate_loop.simps) simp
    also have "\<dots> = (result @ charAt characters (position randomValues i)) @
        map (\<lambda>j. characters ! position randomValues j) [Suc i..<32]"
      using True by (intro "1.IH") simp_all
    also have "\<dots> = result @ map (\<lambda>j. characters ! position randomValues j) [i..<32]"
      using True by (simp add: charAt_position upt_conv_Cons)
    finally show ?thesis .
  next
    case False
    with "1.prems" have "i = 32" by simp
    then show ?thesis by (subst generate_loop.simps) simp
  qed
qed

lemma generate_eq:
  "generateSecureExternalId randomValues =
     map (\<lambda>j. characters ! position randomValues j) [0..<32]"
  by (simp add: generateSecureExternalId_def generate_loop_eq)

lemma length_generate: "length (generateSecureExternalId randomValues) = 32"
  by (simp add: generate_eq)

lemma alnum_generate: "list_all alnum (generateSecureExternalId randomValues)"
  using alnum_characters position_less
  by (simp add: generate_eq list_all_length)

lemma validate_generate:
  "validateExternalId (JString (generateSecureExternalId randomValues)) = Inr ()"
proof -
  let ?g = "generateSecureExternalId randomValues"
  have l: "length ?g = 32" by (rule length_generate)
  then have "?g \<noteq> []" by auto
  then show ?thesis
    using alnum_generate [of randomValues] by (simp add: validate_string l)
qed

text \<open>
  C9: whatever bytes the entropy source returns, the generated value has exactly 32
  characters, each an ASCII letter or digit, and it passes the validator.
\<close>

theorem generateSecureExternalId_form:
  "length (generateSecureExternalId randomValues) = 32 \<and>
   list_all alnum (generateSecureExternalId randomValues) \<and>
   validateExternalId (JString (generateSecureExternalId randomValues)) = Inr ()"
  by (simp add: length_generate alnum_generate validate_generate)

text \<open>The byte values that select the symbol of index \<open>k\<close>: the residue class of \<open>k\<close>.\<close>

lemma shift_mod: "k < 62 \<Longrightarrow> (k + 62 * j) mod 62 = (k::nat)"
  by simp

lemma residue_class:
  assumes "k < 62"
  shows "(n::nat) < 256 \<and> n mod 62 = k \<longleftrightarrow>
      (n = k \<or> n = k + 62 \<or> n = k + 124 \<or> n = k + 186 \<or> (k < 8 \<and> n = k + 248))"
proof
  assume L: "n < 256 \<and> n mod 62 = k"
  define q where "q = n div 62"
  have "n = n mod 62 + 62 * (n div 62)" by (simp only: mod_mult_div_eq)
  with L have n: "n = k + 62 * q" by (simp only: q_def)
  with L have "q < 5" by simp
  then consider "q = 0" | "q = 1" | "q = 2" | "q = 3" | "q = 4" by linarith
  then show "n = k \<or> n = k + 62 \<or> n = k + 124 \<or> n = k + 186 \<or> (k < 8 \<and> n = k + 248)"
    using n L by cases simp_all
next
  assume R: "n = k \<or> n = k + 62 \<or> n = k + 124 \<or> n = k + 186 \<or> (k < 8 \<and> n = k + 248)"
  then consider "n = k + 62 * 0" | "n = k + 62 * 1" | "n = k + 62 * 2" | "n = k + 62 * 3"
    | "k < 8" "n = k + 62 * 4" by auto
  then show "n < 256 \<and> n mod 62 = k"
  proof cases
    case 1 with assms show ?thesis by (simp only: shift_mod) simp
  next
    case 2 with assms show ?thesis by (simp only: shift_mod) simp
  next
    case 3 with assms show ?thesis by (simp only: shift_mod) simp
  next
    case 4 with assms show ?thesis by (simp only: shift_mod) simp
  next
    case 5 with assms show ?thesis by (simp only: shift_mod) simp
  qed
qed

lemma residue_set:
  assumes "k < 62"
  shows "{n::nat. n < 256 \<and> n mod 62 = k} =
     (if k < 8 then {k, k + 62, k + 124, k + 186, k + 248} else {k, k + 62, k + 124, k + 186})"
  using residue_class [OF assms] by auto

lemma card_residue_class:
  assumes "k < 62"
  shows "card {n::nat. n < 256 \<and> n mod 62 = k} = (if k < 8 then 5 else 4)"
  unfolding residue_set [OF assms] by simp

lemma unat_image:
  "unat ` {b :: 8 word. unat b mod 62 = k} = {n. n < 256 \<and> n mod 62 = k}"
proof (intro equalityI subsetI)
  fix n assume "n \<in> unat ` {b :: 8 word. unat b mod 62 = k}"
  then obtain b :: "8 word" where "n = unat b" "unat b mod 62 = k" by blast
  moreover have "unat b < 256" using unsigned_less [of b] by simp
  ultimately show "n \<in> {n. n < 256 \<and> n mod 62 = k}" by simp
next
  fix n assume "n \<in> {n. n < 256 \<and> n mod 62 = k}"
  then have n: "n < 256" "n mod 62 = k" by simp_all
  then have "unat (of_nat n :: 8 word) = n" by (simp add: unat_of_nat)
  with n show "n \<in> unat ` {b :: 8 word. unat b mod 62 = k}"
    by (intro image_eqI [where x = "of_nat n"]) simp_all
qed

lemma card_bytes:
  assumes "k < 62"
  shows "card {b :: 8 word. unat b mod 62 = k} = (if k < 8 then 5 else 4)"
proof -
  have "inj_on unat {b :: 8 word. unat b mod 62 = k}"
    by (rule inj_onI) (simp add: unsigned_word_eqI)
  then have "card (unat ` {b :: 8 word. unat b mod 62 = k}) = card {b :: 8 word. unat b mod 62 = k}"
    by (rule card_image)
  then show ?thesis
    by (simp add: unat_image card_residue_class [OF assms])
qed

lemma symbol_of_byte_eq: "symbol_of_byte b = [characters ! (unat b mod 62)]"
  by (simp add: symbol_of_byte_def position_def charAt_def length_characters)

lemma symbol_of_byte_iff:
  assumes "k < 62"
  shows "symbol_of_byte b = [characters ! k] \<longleftrightarrow> unat b mod 62 = k"
proof -
  have "unat b mod 62 < length characters" by (simp add: length_characters)
  moreover have "k < length characters" using assms by (simp add: length_characters)
  ultimately show ?thesis
    using distinct_characters by (simp add: symbol_of_byte_eq nth_eq_iff_index_eq)
qed

lemma card_symbol:
  assumes "k < 62"
  shows "card {b. symbol_of_byte b = [characters ! k]} = (if k < 8 then 5 else 4)"
  using card_bytes [OF assms] by (simp add: symbol_of_byte_iff [OF assms])

lemma nth_A: "characters ! 0 = 65" and nth_K: "characters ! 10 = 75" and nth_9: "characters ! 61 = 57"
  by (simp_all add: characters_def js_def)

lemma generate_nth:
  assumes "i < 32" "i < length randomValues"
  shows "[generateSecureExternalId randomValues ! i] = symbol_of_byte (randomValues ! i)"
  using assms by (simp add: generate_eq symbol_of_byte_eq position_def length_characters)

text \<open>
  C8, as the claim states it, fails: 256 is not a multiple of 62, and 5 byte values
  give \<open>A\<close> while 4 give \<open>9\<close>.
\<close>

theorem symbol_counts_counterexample:
  "card {b. symbol_of_byte b = js ''A''} = 5 \<and> card {b. symbol_of_byte b = js ''9''} = 4"
  using card_symbol [of 0] card_symbol [of 61]
  by (simp add: nth_A nth_9 js_def)

text \<open>
  C8, amended: the character at each of the 32 positions is the symbol of index
  \<open>byte mod 62\<close> of that position's byte; the first 8 symbols of the alphabet (\<open>A\<close>
  to \<open>H\<close>) are each given by 5 of the 256 byte values and the other 54 symbols by 4.
\<close>

theorem symbol_counts:
  assumes "k < length characters" "i < 32" "i < length randomValues"
  shows "[generateSecureExternalId randomValues ! i] = symbol_of_byte (randomValues ! i) \<and>
         symbol_of_byte (randomValues ! i) = [characters ! (unat (randomValues ! i) mod 62)] \<and>
         card {b. symbol_of_byte b = [characters ! k]} = (if k < 8 then 5 else 4)"
  using assms card_symbol [of k] generate_nth [of i randomValues]
  by (simp add: length_characters symbol_of_byte_eq)

theorem symbol_counts_witness:
  "(10::nat) < length characters \<and> (0::nat) < 32 \<and> 0 < length (replicate 32 (72 :: 8 word)) \<and>
   generateSecureExternalId (replicate 32 72) ! 0 = 75 \<and>
   card {b. symbol_of_byte b = js ''K''} = 4"
proof -
  have "(10::nat) < length characters" by (simp add: length_characters)
  from symbol_counts [OF this, of 0 "replicate 32 72"]
  have "[generateSecureExternalId (replicate 32 72) ! 0] = [75]"
    and "card {b. symbol_of_byte b = [75]} = 4"
    by (simp_all add: nth_K)
  then show ?thesis by (simp add: length_characters js_def)
qed

section \<open>The store operations\<close>

lemma PENDING_CURRENT_update:
  "(sec :: secret)\<lparr>PENDING := p, CURRENT := c\<rparr> = sec\<lparr>CURRENT := c, PENDING := p\<rparr>"
  by (rule secret.equality) simp_all

lemma PromotePending_idem:
  "PromotePending secretId token prev st = Inr (r, st') \<Longrightarrow>
   PromotePending secretId token prev st' = Inr (r, st')"
  by (auto simp: PromotePending_def PENDING_CURRENT_update split: option.splits if_splits)

lemma ClearPending_idem:
  "ClearPending secretId v st = Inr (r, st') \<Longrightarrow> ClearPending secretId v st' = Inr (r, st')"
  by (auto simp: ClearPending_def split: option.splits if_splits)

lemma ClearPending_after_Promote:
  "PromotePending secretId token (Some v) st = Inr (r, st') \<Longrightarrow>
   ClearPending secretId v st' = Inr (r, st')"
  by (auto simp: PromotePending_def ClearPending_def PENDING_CURRENT_update split: option.splits if_splits)

lemma store_send_has_current:
  assumes "store_send c st = Inr (r, st')" "has_current secretId st"
  shows "has_current secretId st'"
proof (cases c)
  case (PutSecretValueCommand sid tok str stages)
  with assms show ?thesis
    by (auto simp: PutPending_def has_current_def GetCurrent_def split: option.splits if_splits)
next
  case (GetSecretValueCommand sid vid stage)
  with assms show ?thesis
    by (auto simp: GetPending_def split: option.splits if_splits)
next
  case (UpdateSecretVersionStageCommand sid stage moveTo removeFrom)
  with assms show ?thesis
    by (auto simp: PromotePending_def ClearPending_def has_current_def GetCurrent_def
        split: option.splits if_splits)
qed

section \<open>The concrete secret\<close>

lemma store0_s1: "store0 ''s1'' = Some secret0"
  by (simp add: store0_def)

lemma secret0_t1: "versions secret0 ''t1'' = None"
  by (simp add: secret0_def)

lemma pending_store0: "pending_version store0 ''s1'' ''t1'' = None"
  by (simp add: pending_version_def store0_def secret0_def)

lemma pending_store1: "pending_version store1 ''s1'' ''t1'' = Some payload1"
  by (simp add: pending_version_def store1_def)

lemma has_current_store0: "has_current ''s1'' store0"
  by (simp add: has_current_def GetCurrent_def store0_def secret0_def)

lemma payload1_neq: "payload1 \<noteq> payload0"
proof -
  have "length candidate1 = 32" by (simp add: candidate1_def length_generate)
  then have "length payload1 \<noteq> length payload0"
    by (simp add: payload1_def payload0_def stringify_flat_def js_def)
  then show ?thesis by auto
qed

lemma put_store0:
  "PutPending ''s1'' ''t1'' payload1 store0 = Inr (\<lparr>SecretString = None\<rparr>, store1)"
  by (simp add: PutPending_def store0_def secret0_def store1_def)

lemma get_store1:
  "GetPending ''s1'' ''t1'' store1 = Inr (\<lparr>SecretString = Some payload1\<rparr>, store1)"
  by (simp add: GetPending_def pending_store1)

lemma promote_store1:
  "PromotePending ''s1'' ''t1'' (Some ''v0'') store1 = Inr (\<lparr>SecretString = None\<rparr>, store2)"
  by (simp add: PromotePending_def store1_def store2_def)

lemma clear_store2:
  "ClearPending ''s1'' ''v0'' store2 = Inr (\<lparr>SecretString = None\<rparr>, store2)"
  by (simp add: ClearPending_def store2_def)

lemma alnum_plain: "alnum c \<Longrightarrow> plain c"
  by (auto simp: alnum_def plain_def word_le_nat_alt)

lemma length_flat_prefix: "length flat_prefix = 15"
  by (simp add: flat_prefix_def js_def)

lemma parse_flat_document:
  assumes "list_all plain s"
  shows "parse_flat (flat_prefix @ s @ flat_suffix) = Some (JObject [(js ''externalId'', JString s)])"
  using assms by (simp add: parse_flat_def Let_def length_flat_prefix flat_suffix_def)

lemma stringify_flat_document:
  "stringify_flat (JObject [(js ''externalId'', JString s)]) = flat_prefix @ s @ flat_suffix"
  by (simp add: stringify_flat_def)

lemma parse_payload1:
  "parse_flat payload1 = Some (JObject [(js ''externalId'', JString candidate1)])"
proof -
  have "list_all alnum candidate1" by (simp add: candidate1_def alnum_generate)
  then have "list_all plain candidate1" by (simp add: list_all_iff alnum_plain)
  then show ?thesis by (simp add: payload1_def stringify_flat_document parse_flat_document)
qed

lemma payload1_nonempty: "payload1 \<noteq> []"
  by (simp add: payload1_def stringify_flat_document flat_suffix_def)

section \<open>createSecret\<close>

lemma createSecret_store:
  "createSecret store_send S rv sid tok st =
     (case PutPending sid tok (S (JObject [(js ''externalId'', JString (generateSecureExternalId rv))])) st of
        Inl e \<Rightarrow> (Inl (StoreError e), st)
      | Inr (r, st') \<Rightarrow> (Inr (), st'))"
  by (simp add: createSecret_def)

lemma createSecret_store0:
  "createSecret store_send stringify_flat (replicate 32 7) ''s1'' ''t1'' store0 = (Inr (), store1)"
  by (simp add: createSecret_store PutPending_def store0_def secret0_def store1_def
      payload1_def candidate1_def)

text \<open>
  C1, as the claim states it, fails: \<^verbatim>\<open>createSecret\<close> has no handler around
  \<^verbatim>\<open>client.send\<close>. On a store that reports \<open>AlreadyExists\<close> for a token that has
  a version, the second invocation with the token \<open>t1\<close> generates a new candidate,
  sends it, and fails with the store's error.
\<close>

theorem createSecret_AlreadyExists_counterexample:
  "createSecret reporting_send stringify_flat (replicate 32 7) ''s1'' ''t1'' store0 = (Inr (), store1) \<and>
   createSecret reporting_send stringify_flat (replicate 32 9) ''s1'' ''t1'' store1
     = (Inl (StoreError AlreadyExists), store1)"
proof -
  have "createSecret reporting_send stringify_flat (replicate 32 7) ''s1'' ''t1'' store0 = (Inr (), store1)"
    by (simp add: createSecret_def PutPending_def store0_def secret0_def store1_def
      payload1_def candidate1_def)
  moreover have "createSecret reporting_send stringify_flat (replicate 32 9) ''s1'' ''t1'' store1
     = (Inl (StoreError AlreadyExists), store1)"
    by (simp add: createSecret_def store1_def)
  ultimately show ?thesis by simp
qed

text \<open>
  C1, amended: every invocation of \<^verbatim>\<open>createSecret\<close> generates a candidate from its
  own entropy and sends one \<open>PutPending\<close> with it; it succeeds exactly when that
  call succeeds, and an error of the store, \<open>AlreadyExists\<close> included, is thrown on
  (last conjunct, for every client). On the store of section 4.3, whose \<open>PutPending\<close>
  is a success that changes nothing when the token has a version, an invocation for a
  fresh token of an existing secret succeeds and leaves one version for the token,
  tagged \<open>PENDING\<close>, with the value it generated; a second invocation with the same
  token succeeds and leaves the store as it is, so the version still holds the first
  value.
\<close>

theorem createSecret_retry:
  assumes "st secretArn = Some sec" "versions sec token = None"
  shows "fst (createSecret store_send JSON_stringify randomValues secretArn token st) = Inr () \<and>
         snd (createSecret store_send JSON_stringify randomValues secretArn token st) secretArn =
           Some (sec\<lparr>versions := (versions sec)(token \<mapsto> JSON_stringify
                   (JObject [(js ''externalId'', JString (generateSecureExternalId randomValues))])),
                 PENDING := Some token\<rparr>) \<and>
         pending_version (snd (createSecret store_send JSON_stringify randomValues secretArn token st))
             secretArn token =
           Some (JSON_stringify
                   (JObject [(js ''externalId'', JString (generateSecureExternalId randomValues))])) \<and>
         createSecret store_send JSON_stringify randomValues' secretArn token
             (snd (createSecret store_send JSON_stringify randomValues secretArn token st)) =
           (Inr (), snd (createSecret store_send JSON_stringify randomValues secretArn token st)) \<and>
         createSecret send JSON_stringify randomValues secretArn token st0 =
           (case send (PutSecretValueCommand secretArn token
                         (JSON_stringify (JObject [(js ''externalId'',
                            JString (generateSecureExternalId randomValues))])) [''AWSPENDING'']) st0 of
              Inl e \<Rightarrow> (Inl (StoreError e), st0)
            | Inr (r, st') \<Rightarrow> (Inr (), st'))"
  using assms
  by (simp add: createSecret_store PutPending_def pending_version_def createSecret_def)

theorem createSecret_retry_witness:
  "store0 ''s1'' = Some secret0 \<and> versions secret0 ''t1'' = None \<and>
   createSecret store_send stringify_flat (replicate 32 7) ''s1'' ''t1'' store0 = (Inr (), store1) \<and>
   pending_version store1 ''s1'' ''t1'' = Some payload1 \<and>
   createSecret store_send stringify_flat (replicate 32 9) ''s1'' ''t1'' store1 = (Inr (), store1)"
proof -
  note r = createSecret_retry [where st = store0 and secretArn = "''s1''" and token = "''t1''"
      and JSON_stringify = stringify_flat and randomValues = "replicate 32 7"
      and randomValues' = "replicate 32 9", OF store0_s1 secret0_t1, unfolded createSecret_store0]
  have a: "pending_version store1 ''s1'' ''t1'' = Some payload1"
    using r [THEN conjunct2, THEN conjunct2, THEN conjunct1]
    by (simp add: payload1_def candidate1_def)
  have b: "createSecret store_send stringify_flat (replicate 32 9) ''s1'' ''t1'' store1 = (Inr (), store1)"
    using r [THEN conjunct2, THEN conjunct2, THEN conjunct2, THEN conjunct1]
    by simp
  from a b show ?thesis
    by (simp add: store0_s1 secret0_t1 createSecret_store0)
qed

section \<open>testSecret\<close>

lemma testSecret_store:
  "testSecret store_send Pa sid tok st =
     (case pending_version st sid tok of
        None \<Rightarrow> (Inl (StoreError NotFound), st)
      | Some payload \<Rightarrow>
          if payload = [] then (Inl (Error ''No secret string found in response''), st)
          else (case Pa payload of
                  None \<Rightarrow> (Inl SyntaxError, st)
                | Some secretData \<Rightarrow>
                    (case externalId_of secretData of
                       Inl e \<Rightarrow> (Inl e, st)
                     | Inr externalId \<Rightarrow> (validateExternalId externalId, st))))"
  by (simp add: testSecret_def GetPending_def split: option.splits)

lemma validate_ok_iff:
  "validateExternalId v = Inr () \<longleftrightarrow>
     (\<exists>s. v = JString s \<and> 8 \<le> length s \<and> length s \<le> 1224 \<and> list_all alnum s)"
proof (cases "\<exists>s. v = JString s")
  case True
  then obtain s where v: "v = JString s" by blast
  show ?thesis unfolding v validate_string by auto
next
  case False
  then have "\<forall>s. v \<noteq> JString s" by simp
  from validate_other [OF this] False show ?thesis by auto
qed

lemma externalId_of_ok_iff:
  "(\<exists>externalId. externalId_of secretData = Inr externalId \<and> validateExternalId externalId = Inr ())
     \<longleftrightarrow> (\<exists>kvs s. secretData = JObject kvs \<and> map_of kvs (js ''externalId'') = Some (JString s) \<and>
            8 \<le> length s \<and> length s \<le> 1224 \<and> list_all alnum s)"
  by (cases secretData) (auto simp: validate_ok_iff split: option.splits)

lemma plain_bad: "list_all plain (js ''bad-value!'')"
  by (simp add: js_def plain_def)

lemma parse_payload_bad:
  "parse_flat payload_bad = Some (JObject [(js ''externalId'', JString (js ''bad-value!''))])"
  by (simp add: payload_bad_def stringify_flat_document parse_flat_document plain_bad)

lemma payload_bad_nonempty: "payload_bad \<noteq> []"
  by (simp add: payload_bad_def stringify_flat_document flat_suffix_def)

lemma pending_store_bad: "pending_version store_bad ''s1'' ''t1'' = Some payload_bad"
  by (simp add: pending_version_def store_bad_def)

lemma validate_bad:
  "validateExternalId (JString (js ''bad-value!'')) = Inl (ValidationError InvalidCharacters)"
  by (simp add: validate_string js_def alnum_def)

text \<open>
  C7: when the store has no \<open>PENDING\<close> version for the request token,
  \<^verbatim>\<open>testSecret\<close> fails with the store's \<open>NotFound\<close>, and so does the handler, which
  throws the error on to the trigger. When there is one and its payload parses to an
  object, the outcome of \<^verbatim>\<open>testSecret\<close> is the outcome of the validator on the
  field \<open>externalId\<close> of that stored object (\<^verbatim>\<open>undefined\<close> when the object has no
  such field). \<^verbatim>\<open>testSecret\<close> succeeds exactly when there is such a version, its
  payload parses to an object, and the field \<open>externalId\<close> of the object is a string
  of 8 to 1224 letters and digits.
\<close>

theorem testSecret_ordering:
  "(pending_version st secretArn token = None \<longrightarrow>
      testSecret store_send JSON_parse secretArn token st = (Inl (StoreError NotFound), st) \<and>
      handler store_send JSON_stringify JSON_parse randomValues
        \<lparr>SecretId = secretArn, ClientRequestToken = token, Step = ''testSecret'',
         PreviousVersionId = previousVersionId\<rparr> st = (Inl (StoreError NotFound), st)) \<and>
   (\<forall>payload kvs.
      pending_version st secretArn token = Some payload \<and> payload \<noteq> [] \<and>
      JSON_parse payload = Some (JObject kvs) \<longrightarrow>
      testSecret store_send JSON_parse secretArn token st =
        (validateExternalId
           (case map_of kvs (js ''externalId'') of None \<Rightarrow> JUndefined | Some v \<Rightarrow> v), st)) \<and>
   (fst (testSecret store_send JSON_parse secretArn token st) = Inr () \<longleftrightarrow>
      (\<exists>payload kvs s.
         pending_version st secretArn token = Some payload \<and> payload \<noteq> [] \<and>
         JSON_parse payload = Some (JObject kvs) \<and>
         map_of kvs (js ''externalId'') = Some (JString s) \<and>
         8 \<le> length s \<and> length s \<le> 1224 \<and> list_all alnum s))"
proof (intro conjI impI allI)
  assume "pending_version st secretArn token = None"
  then show "testSecret store_send JSON_parse secretArn token st = (Inl (StoreError NotFound), st)"
    by (simp add: testSecret_store)
  then show "handler store_send JSON_stringify JSON_parse randomValues
        \<lparr>SecretId = secretArn, ClientRequestToken = token, Step = ''testSecret'',
         PreviousVersionId = previousVersionId\<rparr> st = (Inl (StoreError NotFound), st)"
    by (simp add: handler_def)
next
  fix payload kvs
  assume "pending_version st secretArn token = Some payload \<and> payload \<noteq> [] \<and>
      JSON_parse payload = Some (JObject kvs)"
  then show "testSecret store_send JSON_parse secretArn token st =
        (validateExternalId
           (case map_of kvs (js ''externalId'') of None \<Rightarrow> JUndefined | Some v \<Rightarrow> v), st)"
    by (simp add: testSecret_store)
next
  have "fst (testSecret store_send JSON_parse secretArn token st) = Inr () \<longleftrightarrow>
      (\<exists>payload secretData.
         pending_version st secretArn token = Some payload \<and> payload \<noteq> [] \<and>
         JSON_parse payload = Some secretData \<and>
         (\<exists>externalId. externalId_of secretData = Inr externalId \<and>
            validateExternalId externalId = Inr ()))"
    unfolding testSecret_store
    by (cases "pending_version st secretArn token")
      (auto split: option.splits sum.splits)
  then show "fst (testSecret store_send JSON_parse secretArn token st) = Inr () \<longleftrightarrow>
      (\<exists>payload kvs s.
         pending_version st secretArn token = Some payload \<and> payload \<noteq> [] \<and>
         JSON_parse payload = Some (JObject kvs) \<and>
         map_of kvs (js ''externalId'') = Some (JString s) \<and>
         8 \<le> length s \<and> length s \<le> 1224 \<and> list_all alnum s)"
    unfolding externalId_of_ok_iff by blast
qed

text \<open>
  Three stores: no \<open>PENDING\<close> version for \<open>t1\<close> (\<open>NotFound\<close>), the version that
  \<^verbatim>\<open>createSecret\<close> stored (success), and a stored \<^verbatim>\<open>bad-value!\<close>, which is rejected
  with \<open>InvalidCharacters\<close>.
\<close>

theorem testSecret_ordering_witness:
  "pending_version store0 ''s1'' ''t1'' = None \<and>
   testSecret store_send parse_flat ''s1'' ''t1'' store0 = (Inl (StoreError NotFound), store0) \<and>
   handler store_send stringify_flat parse_flat (replicate 32 7)
     \<lparr>SecretId = ''s1'', ClientRequestToken = ''t1'', Step = ''testSecret'',
      PreviousVersionId = None\<rparr> store0 = (Inl (StoreError NotFound), store0) \<and>
   pending_version store1 ''s1'' ''t1'' = Some payload1 \<and>
   parse_flat payload1 = Some (JObject [(js ''externalId'', JString candidate1)]) \<and>
   testSecret store_send parse_flat ''s1'' ''t1'' store1 = (Inr (), store1) \<and>
   pending_version store_bad ''s1'' ''t1'' = Some payload_bad \<and>
   parse_flat payload_bad = Some (JObject [(js ''externalId'', JString (js ''bad-value!''))]) \<and>
   testSecret store_send parse_flat ''s1'' ''t1'' store_bad
     = (Inl (ValidationError InvalidCharacters), store_bad)"
proof -
  have v: "validateExternalId (JString candidate1) = Inr ()"
    by (simp add: candidate1_def validate_generate)
  note t0 = testSecret_ordering [where st = store0 and secretArn = "''s1''" and token = "''t1''"
      and JSON_parse = parse_flat and JSON_stringify = stringify_flat
      and randomValues = "replicate 32 7" and previousVersionId = None]
  from t0 pending_store0
  have a: "testSecret store_send parse_flat ''s1'' ''t1'' store0 = (Inl (StoreError NotFound), store0)"
    and a': "handler store_send stringify_flat parse_flat (replicate 32 7)
     \<lparr>SecretId = ''s1'', ClientRequestToken = ''t1'', Step = ''testSecret'',
      PreviousVersionId = None\<rparr> store0 = (Inl (StoreError NotFound), store0)"
    by blast+
  from testSecret_ordering [where st = store1 and secretArn = "''s1''" and token = "''t1''"
      and JSON_parse = parse_flat]
    pending_store1 payload1_nonempty parse_payload1
  have "testSecret store_send parse_flat ''s1'' ''t1'' store1 =
      (validateExternalId (case map_of [(js ''externalId'', JString candidate1)] (js ''externalId'')
         of None \<Rightarrow> JUndefined | Some v \<Rightarrow> v), store1)"
    by blast
  then have b: "testSecret store_send parse_flat ''s1'' ''t1'' store1 = (Inr (), store1)"
    by (simp add: v)
  from testSecret_ordering [where st = store_bad and secretArn = "''s1''" and token = "''t1''"
      and JSON_parse = parse_flat]
    pending_store_bad payload_bad_nonempty parse_payload_bad
  have "testSecret store_send parse_flat ''s1'' ''t1'' store_bad =
      (validateExternalId (case map_of [(js ''externalId'', JString (js ''bad-value!''))] (js ''externalId'')
         of None \<Rightarrow> JUndefined | Some v \<Rightarrow> v), store_bad)"
    by blast
  then have c: "testSecret store_send parse_flat ''s1'' ''t1'' store_bad
     = (Inl (ValidationError InvalidCharacters), store_bad)"
    by (simp add: validate_bad)
  from a a' b c show ?thesis
    by (simp add: pending_store0 pending_store1 parse_payload1 pending_store_bad parse_payload_bad)
qed

section \<open>finishSecret\<close>

lemma outage_finish:
  "finishSecret (outage_after store_send) ''s1'' ''t1'' (Some ''v0'') (1, store1)
     = (Inl (StoreError StoreUnavailable), (0, store2))"
  by (simp add: finishSecret_def outage_after_def promote_store1)

lemma finish_store1:
  "finishSecret store_send ''s1'' ''t1'' (Some ''v0'') store1 = (Inr (), store2)"
  by (simp add: finishSecret_def promote_store1 clear_store2)

text \<open>
  C3, as the claim states it, fails: \<^verbatim>\<open>finishSecret\<close> makes two calls. When the
  store answers the first and is unavailable at the second, \<^verbatim>\<open>finishSecret\<close> fails
  and \<open>CURRENT\<close> has moved from the payload of \<open>v0\<close> to that of \<open>t1\<close>.
\<close>

theorem finishSecret_atomic_counterexample:
  "GetCurrent store1 ''s1'' = Some payload0 \<and>
   finishSecret (outage_after store_send) ''s1'' ''t1'' (Some ''v0'') (1, store1)
     = (Inl (StoreError StoreUnavailable), (0, store2)) \<and>
   GetCurrent store2 ''s1'' = Some payload1 \<and>
   payload1 \<noteq> payload0"
proof -
  have "GetCurrent store1 ''s1'' = Some payload0" "GetCurrent store2 ''s1'' = Some payload1"
    by (simp_all add: GetCurrent_def store1_def store2_def)
  with outage_finish payload1_neq show ?thesis by simp
qed

text \<open>
  C3, amended: \<^verbatim>\<open>finishSecret\<close> first sends the move of \<open>CURRENT\<close> onto the
  version of the token and then, only when \<open>previousVersionId\<close> is given and not
  empty, a second call that removes \<open>PENDING\<close> from the previous version. When it
  fails, either the first call failed and the store is as it was (\<open>CURRENT\<close>
  unchanged), or \<open>previousVersionId\<close> is given, the first call succeeded, the second
  failed, and the store is left as the first call made it.
\<close>

theorem finishSecret_failure:
  assumes "finishSecret send secretArn token previousVersionId st = (Inl err, st')"
  shows "(\<exists>e. err = StoreError e \<and> st' = st \<and>
            send (UpdateSecretVersionStageCommand secretArn ''AWSCURRENT'' (Some token) previousVersionId) st = Inl e) \<or>
         (\<exists>e r. err = StoreError e \<and> previousVersionId \<noteq> None \<and> previousVersionId \<noteq> Some [] \<and>
            send (UpdateSecretVersionStageCommand secretArn ''AWSCURRENT'' (Some token) previousVersionId) st = Inr (r, st') \<and>
            send (UpdateSecretVersionStageCommand secretArn ''AWSPENDING'' None previousVersionId) st' = Inl e)"
  using assms
  by (auto simp: finishSecret_def split: sum.splits prod.splits if_splits)

theorem finishSecret_failure_witness:
  "finishSecret (outage_after store_send) ''s1'' ''t1'' (Some ''v0'') (1, store1)
     = (Inl (StoreError StoreUnavailable), (0, store2)) \<and>
   outage_after store_send
     (UpdateSecretVersionStageCommand ''s1'' ''AWSCURRENT'' (Some ''t1'') (Some ''v0'')) (1, store1)
     = Inr (\<lparr>SecretString = None\<rparr>, (0, store2)) \<and>
   outage_after store_send
     (UpdateSecretVersionStageCommand ''s1'' ''AWSPENDING'' None (Some ''v0'')) (0, store2)
     = Inl StoreUnavailable"
  using finishSecret_failure [OF outage_finish] outage_finish
  by (simp add: outage_after_def promote_store1)

text \<open>
  C6: after a successful \<^verbatim>\<open>finishSecret\<close>, a second invocation with the same token
  and the same \<open>previousVersionId\<close> succeeds and leaves the store, and with it the
  version that holds \<open>CURRENT\<close> and its value, as it is.
\<close>

theorem finishSecret_retry:
  assumes "finishSecret store_send secretArn token previousVersionId st = (Inr (), st')"
  shows "finishSecret store_send secretArn token previousVersionId st' = (Inr (), st')"
proof (cases "previousVersionId \<noteq> None \<and> previousVersionId \<noteq> Some []")
  case False
  with assms obtain r where
    "PromotePending secretArn token previousVersionId st = Inr (r, st')"
    by (auto simp: finishSecret_def split: sum.splits if_splits)
  from PromotePending_idem [OF this] False show ?thesis
    by (auto simp: finishSecret_def)
next
  case True
  then obtain v where v: "previousVersionId = Some v" by auto
  from assms True obtain r st1 r' where
    p: "PromotePending secretArn token (Some v) st = Inr (r, st1)" and
    c: "ClearPending secretArn v st1 = Inr (r', st')"
    by (auto simp: finishSecret_def v split: sum.splits if_splits)
  from ClearPending_after_Promote [OF p] c have eq: "st' = st1" "r' = r" by simp_all
  from PromotePending_idem [OF p] ClearPending_after_Promote [OF p] True show ?thesis
    by (simp add: finishSecret_def v eq)
qed

theorem finishSecret_retry_witness:
  "finishSecret store_send ''s1'' ''t1'' (Some ''v0'') store1 = (Inr (), store2) \<and>
   finishSecret store_send ''s1'' ''t1'' (Some ''v0'') store2 = (Inr (), store2) \<and>
   GetCurrent store2 ''s1'' = Some payload1"
  using finishSecret_retry [OF finish_store1]
  by (simp add: finish_store1 GetCurrent_def store2_def)

section \<open>Sequences of invocations\<close>

text \<open>
  A phase run over \<open>traced send\<close> keeps an invariant of the store in every state
  the store goes through, when every successful call keeps it.
\<close>

lemma traced_step:
  assumes "\<And>c st r st'. send c st = Inr (r, st') \<Longrightarrow> P st \<Longrightarrow> P st'" "list_all P (st # h)"
  shows "case traced send c (st, h) of Inl e \<Rightarrow> True | Inr (r, (st', h')) \<Rightarrow> list_all P (st' # h')"
proof (cases "send c st")
  case (Inl e)
  then show ?thesis by (simp add: traced_def)
next
  case (Inr p)
  obtain r st' where p: "p = (r, st')" by (cases p)
  from assms(2) have "P st" by simp
  from assms(1) [OF Inr [unfolded p] this] assms(2) Inr p show ?thesis
    by (simp add: traced_def)
qed

lemma traced_Inr:
  assumes "\<And>c st r st'. send c st = Inr (r, st') \<Longrightarrow> P st \<Longrightarrow> P st'" "list_all P (fst x # snd x)" "traced send c x = Inr (r, x')"
  shows "list_all P (fst x' # snd x')"
  using traced_step [where send = send and P = P and st = "fst x" and h = "snd x" and c = c, OF assms(1)]
    assms(2,3)
  by (cases x') auto

lemma createSecret_traced:
  assumes "\<And>c st r st'. send c st = Inr (r, st') \<Longrightarrow> P st \<Longrightarrow> P st'" "list_all P (fst x # snd x)"
  shows "list_all P (fst (snd (createSecret (traced send) S rv sid tok x)) #
                      snd (snd (createSecret (traced send) S rv sid tok x)))"
proof (cases "traced send (PutSecretValueCommand sid tok
    (S (JObject [(js ''externalId'', JString (generateSecureExternalId rv))])) [''AWSPENDING'']) x")
  case (Inl e)
  with assms(2) show ?thesis by (simp add: createSecret_def)
next
  case (Inr p)
  obtain r x1 where p: "p = (r, x1)" by (cases p)
  from traced_Inr [OF assms Inr [unfolded p]] Inr p show ?thesis
    by (simp add: createSecret_def)
qed

lemma testSecret_traced:
  assumes "\<And>c st r st'. send c st = Inr (r, st') \<Longrightarrow> P st \<Longrightarrow> P st'" "list_all P (fst x # snd x)"
  shows "list_all P (fst (snd (testSecret (traced send) Pa sid tok x)) #
                      snd (snd (testSecret (traced send) Pa sid tok x)))"
proof (cases "traced send (GetSecretValueCommand sid tok ''AWSPENDING'') x")
  case (Inl e)
  with assms(2) show ?thesis by (simp add: testSecret_def)
next
  case (Inr p)
  obtain r x1 where p: "p = (r, x1)" by (cases p)
  from traced_Inr [OF assms Inr [unfolded p]] have "list_all P (fst x1 # snd x1)" .
  then show ?thesis
    unfolding testSecret_def Inr p by (simp split: option.splits sum.splits)
qed

lemma finishSecret_traced:
  assumes "\<And>c st r st'. send c st = Inr (r, st') \<Longrightarrow> P st \<Longrightarrow> P st'" "list_all P (fst x # snd x)"
  shows "list_all P (fst (snd (finishSecret (traced send) sid tok prev x)) #
                      snd (snd (finishSecret (traced send) sid tok prev x)))"
proof (cases "traced send (UpdateSecretVersionStageCommand sid ''AWSCURRENT'' (Some tok) prev) x")
  case (Inl e)
  with assms show ?thesis by (simp add: finishSecret_def)
next
  case (Inr p)
  obtain r x1 where p: "p = (r, x1)" by (cases p)
  from traced_Inr [OF assms Inr [unfolded p]] have x1: "list_all P (fst x1 # snd x1)" .
  show ?thesis
  proof (cases "traced send (UpdateSecretVersionStageCommand sid ''AWSPENDING'' None prev) x1")
    case (Inl e)
    with Inr p x1 show ?thesis by (simp add: finishSecret_def)
  next
    case inr2: (Inr q)
    obtain r' x2 where q: "q = (r', x2)" by (cases q)
    from traced_Inr [OF assms(1) x1 inr2 [unfolded q]] have "list_all P (fst x2 # snd x2)" .
    with Inr p x1 inr2 q show ?thesis by (simp add: finishSecret_def)
  qed
qed

lemma handler_traced:
  assumes "\<And>c st r st'. send c st = Inr (r, st') \<Longrightarrow> P st \<Longrightarrow> P st'" "list_all P (fst x # snd x)"
  shows "list_all P (fst (snd (handler (traced send) S Pa rv ev x)) #
                      snd (snd (handler (traced send) S Pa rv ev x)))"
proof -
  have *: "snd (case y of (Inl error, st') \<Rightarrow> (Inl error, st')
                    | (Inr u, st') \<Rightarrow> (Inr \<lparr>statusCode = 200\<rparr>, st')) = snd y"
    for y :: "(rotation_error + unit) \<times> ('a \<times> 'a list)"
    by (cases y) (auto split: sum.splits)
  show ?thesis
    unfolding handler_def Let_def *
    using createSecret_traced [OF assms] testSecret_traced [OF assms]
      finishSecret_traced [OF assms] assms(2)
    by (simp add: setSecret_def)
qed

lemma invocations_traced:
  assumes "\<And>c st r st'. send c st = Inr (r, st') \<Longrightarrow> P st \<Longrightarrow> P st'"
  shows "list_all P (fst x # snd x) \<Longrightarrow>
     list_all P (fst (invocations (traced send) S Pa evs x) #
                  snd (invocations (traced send) S Pa evs x))"
proof (induction evs arbitrary: x)
  case Nil
  then show ?case by simp
next
  case (Cons a evs)
  obtain ev rv where a: "a = (ev, rv)" by (cases a)
  from handler_traced [OF assms Cons.prems]
  have "list_all P (fst (snd (handler (traced send) S Pa rv ev x)) #
                     snd (snd (handler (traced send) S Pa rv ev x)))" .
  from Cons.IH [OF this] show ?case by (simp add: a)
qed

text \<open>
  Keeping the trace does not change the run.
\<close>

lemma traced_fst:
  "traced send c (st, h) = (case send c st of Inl e \<Rightarrow> Inl e | Inr (r, st') \<Rightarrow> Inr (r, (st', st # h)))"
  by (simp add: traced_def)

lemma createSecret_proj:
  "fst (createSecret (traced send) S rv sid tok (st, h)) = fst (createSecret send S rv sid tok st) \<and>
   fst (snd (createSecret (traced send) S rv sid tok (st, h))) = snd (createSecret send S rv sid tok st)"
  by (auto simp: createSecret_def Let_def traced_fst split: sum.splits)

lemma testSecret_proj:
  "fst (testSecret (traced send) Pa sid tok (st, h)) = fst (testSecret send Pa sid tok st) \<and>
   fst (snd (testSecret (traced send) Pa sid tok (st, h))) = snd (testSecret send Pa sid tok st)"
proof (cases "send (GetSecretValueCommand sid tok ''AWSPENDING'') st")
  case (Inl e)
  then show ?thesis by (simp add: testSecret_def traced_fst)
next
  case (Inr p)
  obtain r st' where p: "p = (r, st')" by (cases p)
  show ?thesis
    unfolding testSecret_def traced_fst Inr p
    by (simp split: option.splits sum.splits)
qed

lemma finishSecret_proj:
  "fst (finishSecret (traced send) sid tok prev (st, h)) = fst (finishSecret send sid tok prev st) \<and>
   fst (snd (finishSecret (traced send) sid tok prev (st, h))) = snd (finishSecret send sid tok prev st)"
  by (auto simp: finishSecret_def traced_fst split: sum.splits)

lemma handler_proj:
  "fst (snd (handler (traced send) S Pa rv ev (st, h))) = snd (handler send S Pa rv ev st)"
proof -
  have *: "snd (case y of (Inl error, st') \<Rightarrow> (Inl error, st')
                    | (Inr u, st') \<Rightarrow> (Inr \<lparr>statusCode = 200\<rparr>, st')) = snd y"
    for y :: "(rotation_error + unit) \<times> 'b"
    by (cases y) (auto split: sum.splits)
  show ?thesis
    unfolding handler_def Let_def *
    using createSecret_proj [of send S rv "SecretId ev" "ClientRequestToken ev" st h]
      testSecret_proj [of send Pa "SecretId ev" "ClientRequestToken ev" st h]
      finishSecret_proj [of send "SecretId ev" "ClientRequestToken ev" "PreviousVersionId ev" st h]
    by (simp add: setSecret_def)
qed

lemma invocations_proj:
  "fst (invocations (traced send) S Pa evs (st, h)) = invocations send S Pa evs st"
proof (induction evs arbitrary: st h)
  case Nil
  then show ?case by simp
next
  case (Cons a evs)
  obtain ev rv where a: "a = (ev, rv)" by (cases a)
  obtain st1 h1 where x: "snd (handler (traced send) S Pa rv ev (st, h)) = (st1, h1)"
    by (cases "snd (handler (traced send) S Pa rv ev (st, h))")
  with handler_proj [of send S Pa rv ev st h] have "st1 = snd (handler send S Pa rv ev st)" by simp
  with Cons.IH [of st1 h1] x show ?case by (simp add: a)
qed

lemma traced_create:
  "createSecret (traced store_send) stringify_flat (replicate 32 7) ''s1'' ''t1'' (store0, [])
     = (Inr (), (store1, [store0]))"
  using put_store0
  by (simp add: createSecret_def traced_def payload1_def candidate1_def)

lemma traced_test:
  "testSecret (traced store_send) parse_flat ''s1'' ''t1'' (store1, [store0])
     = (Inr (), (store1, [store1, store0]))"
  using get_store1 payload1_nonempty
  by (simp add: testSecret_def traced_def parse_payload1 candidate1_def validate_generate)

lemma traced_finish:
  "finishSecret (traced store_send) ''s1'' ''t1'' (Some ''v0'') (store1, [store1, store0])
     = (Inr (), (store2, [store2, store1, store1, store0]))"
  by (simp add: finishSecret_def traced_def promote_store1 clear_store2)

lemma traced_rotation:
  "invocations (traced store_send) stringify_flat parse_flat rotation (store0, [])
     = (store2, [store2, store1, store1, store0])"
  by (simp add: rotation_def handler_def setSecret_def traced_create traced_test traced_finish)

text \<open>
  C2: once \<open>CURRENT\<close> resolves to a version of the secret, it does so in every state
  the store goes through during any sequence of invocations of the handler, whatever
  their steps, tokens and outcomes: after every call to the store, the one between
  the two calls of \<^verbatim>\<open>finishSecret\<close> included, and at the end.
\<close>

theorem no_gap:
  assumes "has_current secretId st"
  shows "list_all (has_current secretId)
           (fst (invocations (traced store_send) JSON_stringify JSON_parse events (st, [])) #
            snd (invocations (traced store_send) JSON_stringify JSON_parse events (st, []))) \<and>
         fst (invocations (traced store_send) JSON_stringify JSON_parse events (st, [])) =
           invocations store_send JSON_stringify JSON_parse events st \<and>
         has_current secretId (invocations store_send JSON_stringify JSON_parse events st)"
proof -
  have "\<And>c st r st'. store_send c st = Inr (r, st') \<Longrightarrow> has_current secretId st
      \<Longrightarrow> has_current secretId st'"
    by (rule store_send_has_current)
  from invocations_traced [where send = store_send and P = "has_current secretId"
      and x = "(st, [])", OF this] assms
  have a: "list_all (has_current secretId)
           (fst (invocations (traced store_send) JSON_stringify JSON_parse events (st, [])) #
            snd (invocations (traced store_send) JSON_stringify JSON_parse events (st, [])))"
    by simp
  have b: "fst (invocations (traced store_send) JSON_stringify JSON_parse events (st, [])) =
           invocations store_send JSON_stringify JSON_parse events st"
    by (rule invocations_proj)
  from a have "has_current secretId
      (fst (invocations (traced store_send) JSON_stringify JSON_parse events (st, [])))"
    by simp
  with a b show ?thesis by simp
qed

theorem no_gap_witness:
  "has_current ''s1'' store0 \<and>
   invocations (traced store_send) stringify_flat parse_flat rotation (store0, [])
     = (store2, [store2, store1, store1, store0]) \<and>
   list_all (has_current ''s1'') [store2, store2, store1, store1, store0]"
  using no_gap [OF has_current_store0, of stringify_flat parse_flat rotation]
  by (simp add: traced_rotation has_current_store0)

end
